theory Spec2Isabelle
  imports Main
begin

section \<open>Package gcs: a facade over the gsutil command-line tool\<close>

text \<open>
  The development embeds \<^verbatim>\<open>pkg/gcp/gcs/gcs.go\<close>. Go strings are byte sequences and are
  modelled as \<open>string\<close> (a list of 8-bit characters). The package-level variables
  \<^verbatim>\<open>GcsPrefix\<close>, \<^verbatim>\<open>concurrentFlag\<close>, \<^verbatim>\<open>recursiveFlag\<close> and \<^verbatim>\<open>noClobberFlag\<close> are never
  assigned in the file and are modelled as constants holding their initial values.
  Calls to the logger (\<^verbatim>\<open>logrus.Infof\<close>, \<^verbatim>\<open>logrus.Debug\<close>) only write log lines and are
  left out.
\<close>

subsection \<open>Go library functions on strings\<close>

text \<open>
  \<^verbatim>\<open>strings.HasPrefix(s, prefix)\<close> is \<^verbatim>\<open>len(s) >= len(prefix) && s[0:len(prefix)] == prefix\<close>;
  \<^verbatim>\<open>strings.TrimPrefix(s, prefix)\<close> returns \<^verbatim>\<open>s[len(prefix):]\<close> when \<^verbatim>\<open>s\<close> has the prefix and
  \<^verbatim>\<open>s\<close> otherwise: it removes one leading occurrence at most.
\<close>

definition strings_HasPrefix :: "string \<Rightarrow> string \<Rightarrow> bool" where
  "strings_HasPrefix s pre = (length pre \<le> length s \<and> take (length pre) s = pre)"

definition strings_TrimPrefix :: "string \<Rightarrow> string \<Rightarrow> string" where
  "strings_TrimPrefix s pre = (if strings_HasPrefix s pre then drop (length pre) s else s)"

fun strings_Join :: "string list \<Rightarrow> string \<Rightarrow> string" where
  "strings_Join [] sep = []"
| "strings_Join [e] sep = e"
| "strings_Join (e # es) sep = e @ sep @ strings_Join es sep"

subsection \<open>Go's \<^verbatim>\<open>path/filepath\<close> on Unix\<close>

text \<open>
  \<^verbatim>\<open>filepath.Join\<close> and \<^verbatim>\<open>filepath.Clean\<close> belong to the Go standard library. They are
  transcribed here for a Unix target: the separator is \<open>/\<close>, there is no volume name and
  \<^verbatim>\<open>FromSlash\<close> is the identity. \<^verbatim>\<open>Clean\<close> reads the path at index \<^verbatim>\<open>r\<close> and writes to a
  buffer of \<^verbatim>\<open>w\<close> bytes; the model keeps the unread rest of the path and the buffer
  \<open>out\<close>, so that \<^verbatim>\<open>w\<close> is \<open>length out\<close>. \<open>dotdot\<close> is the index in the buffer below which
  a \<open>..\<close> element may not remove anything.
\<close>

definition IsPathSeparator :: "char \<Rightarrow> bool" where
  "IsPathSeparator c = (c = CHR ''/'')"

text \<open>
  The inner loop of the \<open>..\<close> case, entered after \<^verbatim>\<open>out.w--\<close>:
  \<^verbatim>\<open>for out.w > dotdot && !os.IsPathSeparator(out.index(out.w)) { out.w-- }\<close>.
\<close>

function backtrack :: "string \<Rightarrow> nat \<Rightarrow> nat \<Rightarrow> nat" where
  "backtrack out dotdot w =
     (if dotdot < w \<and> \<not> IsPathSeparator (out ! w) then backtrack out dotdot (w - 1) else w)"
  by pat_completeness auto
termination
  by (relation "measure (\<lambda>(out, dotdot, w). w)") auto

declare backtrack.simps [simp del]

text \<open>
  The main loop \<^verbatim>\<open>for r < n { switch { ... } }\<close> of \<^verbatim>\<open>Clean\<close>. The four cases are, in the
  order of the source: an empty element (a separator), a \<open>.\<close> element, a \<open>..\<close> element
  and a real element, which is copied up to the next separator.
\<close>

function clean_loop :: "bool \<Rightarrow> string \<Rightarrow> string \<Rightarrow> nat \<Rightarrow> string" where
  "clean_loop rooted [] out dotdot = out"
| "clean_loop rooted (c # rest) out dotdot =
     (if IsPathSeparator c then clean_loop rooted rest out dotdot
      else if c = CHR ''.'' \<and> (rest = [] \<or> IsPathSeparator (hd rest))
        then clean_loop rooted rest out dotdot
      else if c = CHR ''.'' \<and> rest \<noteq> [] \<and> hd rest = CHR ''.''
              \<and> (tl rest = [] \<or> IsPathSeparator (hd (tl rest)))
        then (if dotdot < length out
                then clean_loop rooted (tl rest)
                       (take (backtrack out dotdot (length out - 1)) out) dotdot
              else if \<not> rooted
                then clean_loop rooted (tl rest)
                       ((if 0 < length out then out @ ''/'' else out) @ ''..'')
                       (length ((if 0 < length out then out @ ''/'' else out) @ ''..''))
              else clean_loop rooted (tl rest) out dotdot)
      else clean_loop rooted (dropWhile (\<lambda>x. \<not> IsPathSeparator x) rest)
             ((if (rooted \<and> length out \<noteq> 1) \<or> (\<not> rooted \<and> length out \<noteq> 0)
                 then out @ ''/'' else out)
              @ c # takeWhile (\<lambda>x. \<not> IsPathSeparator x) rest)
             dotdot)"
  by pat_completeness auto
termination
  by (relation "measure (\<lambda>(rooted, path, out, dotdot). length path)")
     (auto simp: less_Suc_eq_le length_dropWhile_le le_SucI)

definition filepath_Clean :: "string \<Rightarrow> string" where
  "filepath_Clean path =
     (if path = [] then ''.''
      else let rooted = IsPathSeparator (hd path);
               out = (if rooted then clean_loop True (tl path) ''/'' 1
                      else clean_loop False path [] 0)
           in if out = [] then ''.'' else out)"

text \<open>
  \<^verbatim>\<open>filepath.Join\<close> skips leading empty elements, joins what is left with the separator
  and cleans the result; with no non-empty element it returns the empty string.
\<close>

fun filepath_Join :: "string list \<Rightarrow> string" where
  "filepath_Join [] = []"
| "filepath_Join (e # es) =
     (if e \<noteq> [] then filepath_Clean (strings_Join (e # es) ''/'') else filepath_Join es)"

subsection \<open>Path construction\<close>

definition GcsPrefix :: string where
  "GcsPrefix = ''gs://''"

definition concurrentFlag :: string where
  "concurrentFlag = ''-m''"

definition recursiveFlag :: string where
  "recursiveFlag = ''-r''"

definition noClobberFlag :: string where
  "noClobberFlag = ''-n''"

definition getPath :: "string \<Rightarrow> string \<Rightarrow> string \<Rightarrow> string \<Rightarrow> string \<Rightarrow> bool \<Rightarrow> string" where
  "getPath bucket buildType gcsSuffix version pathType fast =
     (let gcsPath = bucket;
          gcsPath = filepath_Join [gcsPath, buildType];
          gcsPath = (if gcsSuffix \<noteq> [] then gcsPath @ ''-'' @ gcsSuffix else gcsPath);
          gcsPath = (if pathType = ''release''
                     then (let gcsPath = (if fast then filepath_Join [gcsPath, ''fast'']
                                          else gcsPath);
                               gcsPath = (if version \<noteq> [] then filepath_Join [gcsPath, version]
                                          else gcsPath)
                           in gcsPath)
                     else gcsPath)
      in gcsPath)"

definition GetReleasePath :: "string \<Rightarrow> string \<Rightarrow> string \<Rightarrow> string \<Rightarrow> bool \<Rightarrow> string" where
  "GetReleasePath bucket buildType gcsSuffix version fast =
     getPath bucket buildType gcsSuffix version ''release'' fast"

definition GetMarkerPath :: "string \<Rightarrow> string \<Rightarrow> string \<Rightarrow> string" where
  "GetMarkerPath bucket buildType gcsSuffix =
     getPath bucket buildType gcsSuffix [] ''marker'' False"

definition NormalizeGCSPath :: "string \<Rightarrow> string" where
  "NormalizeGCSPath gcsPath = GcsPrefix @ strings_TrimPrefix gcsPath GcsPrefix"

subsection \<open>Errors, panics and the environment\<close>

text \<open>
  A Go \<^verbatim>\<open>error\<close> result is an \<open>error option\<close>, \<open>None\<close> being \<^verbatim>\<open>nil\<close>. \<open>New\<close> is
  \<^verbatim>\<open>errors.New\<close>; \<open>Wrap\<close> is what \<^verbatim>\<open>errors.Wrap\<close> builds around a non-nil error.
  \<^verbatim>\<open>errors.Wrap\<close> of a nil error is nil.
\<close>

datatype error = New string | Wrap error string

definition errors_Wrap :: "error option \<Rightarrow> string \<Rightarrow> error option" where
  "errors_Wrap err message = (case err of None \<Rightarrow> None | Some e \<Rightarrow> Some (Wrap e message))"

text \<open>
  The fields of \<^verbatim>\<open>Options\<close> are of type \<^verbatim>\<open>*bool\<close>: \<open>None\<close> is the nil pointer. The
  operations take \<^verbatim>\<open>opts *Options\<close>, which may be nil as well, so they receive an
  \<open>Options option\<close>.
\<close>

record Options =
  Concurrent :: "bool option"
  Recursive :: "bool option"
  NoClobber :: "bool option"
  AllowMissing :: "bool option"

definition DefaultGCSCopyOptions :: "Options option" where
  "DefaultGCSCopyOptions =
     Some \<lparr>Concurrent = Some True, Recursive = Some True, NoClobber = Some True,
           AllowMissing = Some True\<rparr>"

text \<open>
  Dereferencing a nil pointer panics. An operation of the package either panics or
  returns its Go result.
\<close>

datatype 'a outcome = Panic | Return 'a

text \<open>
  The two calls that leave the package are parameters of the model: \<^verbatim>\<open>os.Stat\<close>, of
  which only the error result is used, and \<^verbatim>\<open>gcp.GSUtil\<close>, of package
  \<^verbatim>\<open>k8s.io/release/pkg/gcp\<close>, which runs the gsutil tool with the given arguments and
  returns nil when the tool exits with status zero and the failure otherwise.
\<close>

record env =
  os_Stat :: "string \<Rightarrow> error option"
  gcp_GSUtil :: "string list \<Rightarrow> error option"

text \<open>
  Every operation returns its outcome together with the list of the argument lists that
  it has passed to \<^verbatim>\<open>gcp.GSUtil\<close>, in the order of the calls.
\<close>

type_synonym 'a run = "'a outcome \<times> string list list"

subsection \<open>Copy operations\<close>

definition bucketCopy :: "env \<Rightarrow> string \<Rightarrow> string \<Rightarrow> Options option \<Rightarrow> error option run" where
  "bucketCopy e src dst opts =
     (case opts of None \<Rightarrow> (Panic, []) | Some opt \<Rightarrow>
      (case Concurrent opt of None \<Rightarrow> (Panic, []) | Some concurrent \<Rightarrow>
       (let args = [];
            args = (if concurrent then args @ [concurrentFlag] else args);
            args = args @ [''cp'']
        in case Recursive opt of None \<Rightarrow> (Panic, []) | Some recursive \<Rightarrow>
           (let args = (if recursive then args @ [recursiveFlag] else args)
            in case NoClobber opt of None \<Rightarrow> (Panic, []) | Some noClobber \<Rightarrow>
               (let args = (if noClobber then args @ [noClobberFlag] else args);
                    args = args @ [src, dst]
                in case gcp_GSUtil e args of
                     Some err \<Rightarrow> (Return (Some (Wrap err ''gcs copy'')), [args])
                   | None \<Rightarrow> (Return None, [args]))))))"

definition CopyToGCS :: "env \<Rightarrow> string \<Rightarrow> string \<Rightarrow> Options option \<Rightarrow> error option run" where
  "CopyToGCS e src gcsPath opts =
     (let gcsPath = NormalizeGCSPath gcsPath
      in case os_Stat e src of
           Some err \<Rightarrow>
             (case opts of None \<Rightarrow> (Panic, []) | Some opt \<Rightarrow>
              (case AllowMissing opt of None \<Rightarrow> (Panic, [])
               | Some allowMissing \<Rightarrow>
                   if allowMissing then (Return None, [])
                   else (Return (Some (New ''source directory does not exist'')), [])))
         | None \<Rightarrow> bucketCopy e src gcsPath opts)"

definition CopyToLocal :: "env \<Rightarrow> string \<Rightarrow> string \<Rightarrow> Options option \<Rightarrow> error option run" where
  "CopyToLocal e gcsPath dst opts =
     (let gcsPath = NormalizeGCSPath gcsPath in bucketCopy e gcsPath dst opts)"

definition CopyBucketToBucket :: "env \<Rightarrow> string \<Rightarrow> string \<Rightarrow> Options option \<Rightarrow> error option run" where
  "CopyBucketToBucket e src dst opts =
     bucketCopy e (NormalizeGCSPath src) (NormalizeGCSPath dst) opts"

definition RsyncRecursive :: "env \<Rightarrow> string \<Rightarrow> string \<Rightarrow> error option run" where
  "RsyncRecursive e src dst =
     (Return (errors_Wrap (gcp_GSUtil e [''-m'', ''rsync'', ''-r'', src, dst])
                ''running gsutil rsync''),
      [[''-m'', ''rsync'', ''-r'', src, dst]])"

definition PathExists :: "env \<Rightarrow> string \<Rightarrow> (bool \<times> error option) run" where
  "PathExists e gcsPath =
     (case gcp_GSUtil e [''ls'', gcsPath] of
        Some err \<Rightarrow> (Return (False, Some err), [[''ls'', gcsPath]])
      | None \<Rightarrow> (Return (True, None), [[''ls'', gcsPath]]))"

subsection \<open>Notions used to state the properties\<close>

text \<open>
  \<open>leading_count pre s\<close> is the number of consecutive copies of \<open>pre\<close> at the start
  of \<open>s\<close>.
\<close>

function leading_count :: "string \<Rightarrow> string \<Rightarrow> nat" where
  "leading_count pre s =
     (if pre \<noteq> [] \<and> strings_HasPrefix s pre
      then Suc (leading_count pre (drop (length pre) s)) else 0)"
  by pat_completeness auto
termination
proof (relation "measure (\<lambda>(pre, s). length s)")
  fix pre s :: string
  assume "pre \<noteq> [] \<and> strings_HasPrefix s pre"
  then have "pre \<noteq> []" and "length pre \<le> length s"
    by (simp_all add: strings_HasPrefix_def)
  then have "length s - length pre < length s"
    by (cases pre) auto
  then show "((pre, drop (length pre) s), (pre, s)) \<in> measure (\<lambda>(pre, s). length s)"
    by simp
qed simp

declare leading_count.simps [simp del]

text \<open>
  The segments of a path are the pieces between its separators: \<open>a//b\<close> has the
  segments \<open>a\<close>, the empty string and \<open>b\<close>.
\<close>

fun segments :: "string \<Rightarrow> string list" where
  "segments [] = [[]]"
| "segments (c # cs) =
     (if IsPathSeparator c then [] # segments cs
      else (c # hd (segments cs)) # tl (segments cs))"

text \<open>
  The invariant of the loop of \<^verbatim>\<open>Clean\<close>: \<open>dotdot\<close> is within the buffer, the buffer
  below \<open>dotdot\<close> holds only \<open>..\<close> elements (or the leading separator), and the buffer
  of a rooted path starts with the separator.
\<close>

definition clean_inv :: "bool \<Rightarrow> string \<Rightarrow> nat \<Rightarrow> bool" where
  "clean_inv rooted out dotdot =
     (dotdot \<le> length out \<and> set (segments (take dotdot out)) \<subseteq> {''..'', []} \<and>
      (rooted \<longrightarrow> 1 \<le> dotdot \<and> out \<noteq> [] \<and> hd out = CHR ''/''))"

text \<open>An operation returns when it does not panic.\<close>

definition returns :: "'a run \<Rightarrow> bool" where
  "returns x = (case fst x of Panic \<Rightarrow> False | Return r \<Rightarrow> True)"

text \<open>
  \<open>flags_set opts\<close>: the pointer \<open>opts\<close> and the three pointers read by \<open>bucketCopy\<close>
  are not nil. \<open>allow_set opts\<close>: \<open>opts\<close> and its \<open>AllowMissing\<close> are not nil.
\<close>

definition flags_set :: "Options option \<Rightarrow> bool" where
  "flags_set opts =
     (case opts of None \<Rightarrow> False
      | Some opt \<Rightarrow>
          Concurrent opt \<noteq> None \<and> Recursive opt \<noteq> None \<and> NoClobber opt \<noteq> None)"

definition allow_set :: "Options option \<Rightarrow> bool" where
  "allow_set opts = (case opts of None \<Rightarrow> False | Some opt \<Rightarrow> AllowMissing opt \<noteq> None)"

text \<open>
  A concrete environment: one local directory exists, and gsutil fails on one listing.
  \<open>empty_Options\<close> is the Go value \<^verbatim>\<open>&Options{}\<close>; \<open>strict_Options\<close> has every toggle
  disabled.
\<close>

definition example_env :: env where
  "example_env =
     \<lparr>os_Stat = (\<lambda>name. if name = ''_output/release-tars'' then None
                         else Some (New ''no such file or directory'')),
      gcp_GSUtil = (\<lambda>args. if args = [''ls'', ''gs://k8s-release-dev/ci/latest.txt'']
                            then Some (New ''exit status 1'') else None)\<rparr>"

definition empty_Options :: "Options option" where
  "empty_Options =
     Some \<lparr>Concurrent = None, Recursive = None, NoClobber = None, AllowMissing = None\<rparr>"

definition strict_Options :: "Options option" where
  "strict_Options =
     Some \<lparr>Concurrent = Some False, Recursive = Some False, NoClobber = Some False,
           AllowMissing = Some False\<rparr>"

section \<open>Properties\<close>

subsection \<open>Prefixes\<close>

lemma HasPrefix_append: "strings_HasPrefix (pre @ s) pre"
  by (simp add: strings_HasPrefix_def)

lemma TrimPrefix_append: "strings_TrimPrefix (pre @ s) pre = s"
  by (simp add: strings_TrimPrefix_def HasPrefix_append)

lemma HasPrefix_iff: "strings_HasPrefix s pre \<longleftrightarrow> (\<exists>r. s = pre @ r)"
proof
  assume "strings_HasPrefix s pre"
  then have "s = pre @ drop (length pre) s"
    by (metis append_take_drop_id strings_HasPrefix_def)
  then show "\<exists>r. s = pre @ r" ..
next
  assume "\<exists>r. s = pre @ r"
  then show "strings_HasPrefix s pre"
    by (auto simp: HasPrefix_append)
qed

lemma leading_count_append:
  "pre \<noteq> [] \<Longrightarrow> leading_count pre (pre @ s) = Suc (leading_count pre s)"
  by (subst leading_count.simps) (simp add: HasPrefix_append)

lemma leading_count_0: "\<not> strings_HasPrefix s pre \<Longrightarrow> leading_count pre s = 0"
  by (subst leading_count.simps) simp

lemma GcsPrefix_nonempty: "GcsPrefix \<noteq> []"
  by (simp add: GcsPrefix_def)

lemma returns_bucketCopy: "returns (bucketCopy e src dst opts) = flags_set opts"
  by (auto simp: returns_def bucketCopy_def flags_set_def Let_def split: option.splits)

subsection \<open>Segments of a cleaned path\<close>

text \<open>
  \<^verbatim>\<open>Clean\<close> invents no path element: every segment of the cleaned path is a segment of
  the path it was given, or \<open>..\<close>, or \<open>.\<close>, or empty.
\<close>

lemma segments_nonempty: "segments s \<noteq> []"
  by (induction s) auto

text \<open>An equation that evaluates the segments of the rest of the path once.\<close>

lemma segments_code [code]:
  "segments [] = [[]]"
  "segments (c # cs) =
     (if IsPathSeparator c then [] # segments cs
      else (case segments cs of [] \<Rightarrow> [[c]] | x # xs \<Rightarrow> (c # x) # xs))"
  by (cases "segments cs"; simp add: segments_nonempty)+

lemma segments_sep_append: "segments (a @ CHR ''/'' # b) = segments a @ segments b"
  by (induction a) (auto simp: IsPathSeparator_def segments_nonempty)

lemma segments_plain: "\<forall>x\<in>set s. \<not> IsPathSeparator x \<Longrightarrow> segments s = [s]"
  by (induction s) auto

lemma hd_segments: "hd (segments s) = takeWhile (\<lambda>x. \<not> IsPathSeparator x) s"
  by (induction s) auto

lemma segments_dropWhile_tl:
  "set (segments (dropWhile (\<lambda>x. \<not> IsPathSeparator x) s)) \<subseteq> insert [] (set (tl (segments s)))"
  by (induction s) auto

lemma set_tl_segments: "set (tl (segments s)) \<subseteq> set (segments s)"
  by (cases "segments s") auto

lemma segments_append:
  "segments (a @ b) =
     butlast (segments a) @ (last (segments a) @ hd (segments b)) # tl (segments b)"
proof (induction a)
  case Nil
  then show ?case using segments_nonempty [of b] by (cases "segments b") auto
next
  case (Cons c a)
  show ?case
  proof (cases "butlast (segments a)")
    case Nil
    then show ?thesis using Cons segments_nonempty [of a]
      by (cases "segments a") (auto split: if_splits)
  next
    case (Cons x xs)
    then show ?thesis using Cons.IH segments_nonempty [of a]
      by (cases "segments a") (auto split: if_splits)
  qed
qed


lemma backtrack_bounds:
  "dotdot \<le> w \<Longrightarrow>
     dotdot \<le> backtrack out dotdot w \<and> backtrack out dotdot w \<le> w \<and>
     (backtrack out dotdot w = dotdot \<or> IsPathSeparator (out ! backtrack out dotdot w))"
proof (induction out dotdot w rule: backtrack.induct)
  case (1 out dotdot w)
  show ?case
  proof (cases "dotdot < w \<and> \<not> IsPathSeparator (out ! w)")
    case True
    then have eq: "backtrack out dotdot w = backtrack out dotdot (w - 1)"
      by (subst backtrack.simps) simp
    from True have "dotdot \<le> w - 1" by auto
    with 1 True have "dotdot \<le> backtrack out dotdot (w - 1) \<and>
        backtrack out dotdot (w - 1) \<le> w - 1 \<and>
        (backtrack out dotdot (w - 1) = dotdot \<or>
         IsPathSeparator (out ! backtrack out dotdot (w - 1)))"
      by blast
    then show ?thesis unfolding eq by auto
  next
    case False
    then have eq: "backtrack out dotdot w = w"
      by (subst backtrack.simps) auto
    from False 1 show ?thesis unfolding eq by auto
  qed
qed

lemma segments_take_sep:
  assumes "w < length out" "IsPathSeparator (out ! w)"
  shows "set (segments (take w out)) \<subseteq> set (segments out)"
proof -
  have "out = take w out @ CHR ''/'' # drop (Suc w) out"
    using assms by (metis IsPathSeparator_def id_take_nth_drop)
  then have "segments out = segments (take w out) @ segments (drop (Suc w) out)"
    by (metis segments_sep_append)
  then show ?thesis by simp
qed

lemma segments_snoc_elem:
  assumes "\<forall>x\<in>set el. \<not> IsPathSeparator x"
  shows "segments (out @ ''/'' @ el) = segments out @ [el]"
  using assms by (simp add: segments_sep_append segments_plain)

lemma segments_skip_dot:
  assumes "rest = [] \<or> IsPathSeparator (hd rest)"
  shows "set (segments rest) \<subseteq> insert [] (set (segments (c # rest)))"
proof (cases rest)
  case Nil
  then show ?thesis by simp
next
  case (Cons d r)
  with assms show ?thesis by auto
qed

lemma clean_loop_dotdot_back:
  assumes "\<not> IsPathSeparator c"
    and "\<not> (c = CHR ''.'' \<and> (rest = [] \<or> IsPathSeparator (hd rest)))"
    and "c = CHR ''.'' \<and> rest \<noteq> [] \<and> hd rest = CHR ''.'' \<and>
         (tl rest = [] \<or> IsPathSeparator (hd (tl rest)))"
    and "dotdot < length out"
  shows "clean_loop rooted (c # rest) out dotdot =
     clean_loop rooted (tl rest) (take (backtrack out dotdot (length out - 1)) out) dotdot"
proof -
  have c1: "IsPathSeparator c = False" using assms(1) by simp
  have c2: "(c = CHR ''.'' \<and> (rest = [] \<or> IsPathSeparator (hd rest))) = False"
    using assms(2) by simp
  have c3: "(c = CHR ''.'' \<and> rest \<noteq> [] \<and> hd rest = CHR ''.'' \<and>
         (tl rest = [] \<or> IsPathSeparator (hd (tl rest)))) = True"
    using assms(3) by simp
  have c4: "(dotdot < length out) = True" using assms(4) by simp
  show ?thesis
    by (subst clean_loop.simps(2)) (simp only: c1 c2 c3 c4 if_True if_False)
qed

lemma clean_loop_dotdot_append:
  assumes "\<not> IsPathSeparator c"
    and "\<not> (c = CHR ''.'' \<and> (rest = [] \<or> IsPathSeparator (hd rest)))"
    and "c = CHR ''.'' \<and> rest \<noteq> [] \<and> hd rest = CHR ''.'' \<and>
         (tl rest = [] \<or> IsPathSeparator (hd (tl rest)))"
    and "\<not> dotdot < length out" and "\<not> rooted"
  shows "clean_loop rooted (c # rest) out dotdot =
     clean_loop rooted (tl rest) ((if 0 < length out then out @ ''/'' else out) @ ''..'')
       (length ((if 0 < length out then out @ ''/'' else out) @ ''..''))"
proof -
  have c1: "IsPathSeparator c = False" using assms(1) by simp
  have c2: "(c = CHR ''.'' \<and> (rest = [] \<or> IsPathSeparator (hd rest))) = False"
    using assms(2) by simp
  have c3: "(c = CHR ''.'' \<and> rest \<noteq> [] \<and> hd rest = CHR ''.'' \<and>
         (tl rest = [] \<or> IsPathSeparator (hd (tl rest)))) = True"
    using assms(3) by simp
  have c4: "(dotdot < length out) = False" using assms(4) by simp
  have c5: "(\<not> rooted) = True" using assms(5) by simp
  show ?thesis
    by (subst clean_loop.simps(2)) (simp only: c1 c2 c3 c4 c5 if_True if_False)
qed

lemma clean_loop_dotdot_root:
  assumes "\<not> IsPathSeparator c"
    and "\<not> (c = CHR ''.'' \<and> (rest = [] \<or> IsPathSeparator (hd rest)))"
    and "c = CHR ''.'' \<and> rest \<noteq> [] \<and> hd rest = CHR ''.'' \<and>
         (tl rest = [] \<or> IsPathSeparator (hd (tl rest)))"
    and "\<not> dotdot < length out" and "\<not> \<not> rooted"
  shows "clean_loop rooted (c # rest) out dotdot = clean_loop rooted (tl rest) out dotdot"
proof -
  have c1: "IsPathSeparator c = False" using assms(1) by simp
  have c2: "(c = CHR ''.'' \<and> (rest = [] \<or> IsPathSeparator (hd rest))) = False"
    using assms(2) by simp
  have c3: "(c = CHR ''.'' \<and> rest \<noteq> [] \<and> hd rest = CHR ''.'' \<and>
         (tl rest = [] \<or> IsPathSeparator (hd (tl rest)))) = True"
    using assms(3) by simp
  have c4: "(dotdot < length out) = False" using assms(4) by simp
  have c5: "(\<not> rooted) = False" using assms(5) by simp
  show ?thesis
    by (subst clean_loop.simps(2)) (simp only: c1 c2 c3 c4 c5 if_True if_False)
qed

lemma clean_loop_element:
  assumes "\<not> IsPathSeparator c"
    and "\<not> (c = CHR ''.'' \<and> (rest = [] \<or> IsPathSeparator (hd rest)))"
    and "\<not> (c = CHR ''.'' \<and> rest \<noteq> [] \<and> hd rest = CHR ''.'' \<and>
         (tl rest = [] \<or> IsPathSeparator (hd (tl rest))))"
  shows "clean_loop rooted (c # rest) out dotdot =
     clean_loop rooted (dropWhile (\<lambda>x. \<not> IsPathSeparator x) rest)
       ((if rooted \<and> length out \<noteq> 1 \<or> \<not> rooted \<and> length out \<noteq> 0
         then out @ ''/'' else out) @ c # takeWhile (\<lambda>x. \<not> IsPathSeparator x) rest)
       dotdot"
proof -
  have c1: "IsPathSeparator c = False" using assms(1) by simp
  have c2: "(c = CHR ''.'' \<and> (rest = [] \<or> IsPathSeparator (hd rest))) = False"
    using assms(2) by simp
  have c3: "(c = CHR ''.'' \<and> rest \<noteq> [] \<and> hd rest = CHR ''.'' \<and>
         (tl rest = [] \<or> IsPathSeparator (hd (tl rest)))) = False"
    using assms(3) by simp
  show ?thesis
    by (subst clean_loop.simps(2)) (simp only: c1 c2 c3 if_True if_False)
qed

lemma clean_loop_segments:
  "clean_inv rooted out dotdot \<Longrightarrow>
   set (segments (clean_loop rooted path out dotdot))
     \<subseteq> set (segments out) \<union> set (segments path) \<union> {''..'', []}"
proof (induction rooted path out dotdot rule: clean_loop.induct)
  case (1 rooted out dotdot)
  then show ?case by auto
next
  case (2 rooted c rest out dotdot)
  note inv = "2.prems"
  from inv have len: "dotdot \<le> length out"
    and low: "set (segments (take dotdot out)) \<subseteq> {''..'', []}"
    and root: "rooted \<Longrightarrow> 1 \<le> dotdot \<and> out \<noteq> [] \<and> hd out = CHR ''/''"
    by (simp_all add: clean_inv_def)
  show ?case
  proof (cases "IsPathSeparator c")
    case True
    have "clean_loop rooted (c # rest) out dotdot = clean_loop rooted rest out dotdot"
      using True by simp
    moreover have "segments (c # rest) = [] # segments rest"
      using True by simp
    ultimately show ?thesis
      using "2.IH"(1) [OF True inv] by auto
  next
    case nsep: False
    show ?thesis
    proof (cases "c = CHR ''.'' \<and> (rest = [] \<or> IsPathSeparator (hd rest))")
      case True
      have "clean_loop rooted (c # rest) out dotdot = clean_loop rooted rest out dotdot"
        using nsep True by simp
      moreover have "set (segments rest) \<subseteq> insert [] (set (segments (c # rest)))"
        using True by (intro segments_skip_dot) simp
      ultimately show ?thesis
        using "2.IH"(2) [OF nsep True inv] by auto
    next
      case ndot: False
      show ?thesis
      proof (cases "c = CHR ''.'' \<and> rest \<noteq> [] \<and> hd rest = CHR ''.'' \<and>
                    (tl rest = [] \<or> IsPathSeparator (hd (tl rest)))")
        case dd: True
        then obtain r where rest: "rest = CHR ''.'' # r" and r: "r = [] \<or> IsPathSeparator (hd r)"
          by (cases rest) auto
        have sub: "set (segments (tl rest)) \<subseteq> insert [] (set (segments (c # rest)))"
        proof (cases r)
          case Nil
          then show ?thesis by (simp add: rest)
        next
          case (Cons d r')
          with r nsep show ?thesis by (auto simp: rest IsPathSeparator_def)
        qed
        consider (a) "dotdot < length out" | (b) "\<not> dotdot < length out" "\<not> rooted"
          | (c) "\<not> dotdot < length out" "\<not> \<not> rooted"
          by blast
        then show ?thesis
        proof cases
          case a
          define w where "w = backtrack out dotdot (length out - 1)"
          have eq: "clean_loop rooted (c # rest) out dotdot =
              clean_loop rooted (tl rest) (take w out) dotdot"
            unfolding w_def by (rule clean_loop_dotdot_back [OF nsep ndot dd a])
          from a have "dotdot \<le> length out - 1" by auto
          from backtrack_bounds [OF this, of out]
          have w1: "dotdot \<le> w" and w2: "w \<le> length out - 1"
            and w3: "w = dotdot \<or> IsPathSeparator (out ! w)"
            unfolding w_def by auto
          from a w2 have w4: "w < length out" by auto
          have seg: "set (segments (take w out)) \<subseteq> set (segments out) \<union> {''..'', []}"
          proof (cases "w = dotdot")
            case True
            then show ?thesis using low by auto
          next
            case False
            with w3 have "IsPathSeparator (out ! w)" by simp
            from segments_take_sep [OF w4 this] show ?thesis by auto
          qed
          have "take dotdot (take w out) = take dotdot out"
            using w1 by (simp add: min_def)
          moreover have "rooted \<Longrightarrow> take w out \<noteq> [] \<and> hd (take w out) = CHR ''/''"
            using root w1 by (cases out; cases w) auto
          ultimately have "clean_inv rooted (take w out) dotdot"
            using w1 w4 low root by (simp add: clean_inv_def)
          from "2.IH"(3) [OF nsep ndot dd a, folded w_def, OF this] seg sub show ?thesis
            unfolding eq by blast
        next
          case b
          define out' where "out' = (if 0 < length out then out @ ''/'' else out) @ ''..''"
          have eq: "clean_loop rooted (c # rest) out dotdot =
              clean_loop rooted (tl rest) out' (length out')"
            unfolding out'_def by (rule clean_loop_dotdot_append [OF nsep ndot dd b])
          from b len have "take dotdot out = out" by simp
          with low have lo: "set (segments out) \<subseteq> {''..'', []}" by simp
          have so: "segments out' = (if out = [] then [''..''] else segments out @ [''..''])"
            unfolding out'_def
            using segments_snoc_elem [of "''..''" out]
            by (simp add: IsPathSeparator_def)
          have seg: "set (segments out') \<subseteq> {''..'', []}"
            using lo by (auto simp: so)
          have "clean_inv rooted out' (length out')"
            using seg b by (simp add: clean_inv_def)
          from "2.IH"(4) [OF nsep ndot dd b, folded out'_def, OF this] seg sub show ?thesis
            unfolding eq by blast
        next
          case c
          have eq: "clean_loop rooted (c # rest) out dotdot =
              clean_loop rooted (tl rest) out dotdot"
            by (rule clean_loop_dotdot_root [OF nsep ndot dd c])
          from "2.IH"(5) [OF nsep ndot dd c inv] sub show ?thesis
            unfolding eq by blast
        qed
      next
        case real: False
        define el where "el = c # takeWhile (\<lambda>x. \<not> IsPathSeparator x) rest"
        define out' where "out' =
          (if rooted \<and> length out \<noteq> 1 \<or> \<not> rooted \<and> length out \<noteq> 0
           then out @ ''/'' else out) @ el"
        have eq: "clean_loop rooted (c # rest) out dotdot =
            clean_loop rooted (dropWhile (\<lambda>x. \<not> IsPathSeparator x) rest) out' dotdot"
          unfolding out'_def el_def by (rule clean_loop_element [OF nsep ndot real])
        have plain: "\<forall>x\<in>set el. \<not> IsPathSeparator x"
          using nsep by (auto simp: el_def dest: set_takeWhileD)
        have el_in: "el \<in> set (segments (c # rest))"
        proof -
          have "hd (segments (c # rest)) = el"
            using nsep by (simp add: hd_segments el_def)
          then show ?thesis
            by (metis hd_in_set segments_nonempty)
        qed
        have seg: "set (segments out') \<subseteq> insert el (insert [] (set (segments out)))"
        proof (cases "rooted \<and> length out \<noteq> 1 \<or> \<not> rooted \<and> length out \<noteq> 0")
          case True
          then have "out' = out @ ''/'' @ el" by (simp add: out'_def)
          then show ?thesis
            using segments_snoc_elem [OF plain, of out] by auto
        next
          case False
          then have o: "out' = out @ el" by (simp add: out'_def)
          show ?thesis
          proof (cases rooted)
            case True
            with False root have "out = ''/''"
              by (cases out) auto
            then have "out' = [] @ CHR ''/'' # el" by (simp add: o)
            then have "segments out' = segments [] @ segments el"
              by (metis segments_sep_append)
            then show ?thesis using segments_plain [OF plain] by auto
          next
            case nr: False
            with False have "out = []" by simp
            then show ?thesis using segments_plain [OF plain] by (simp add: o)
          qed
        qed
        have sub: "set (segments (dropWhile (\<lambda>x. \<not> IsPathSeparator x) rest))
            \<subseteq> insert [] (set (segments (c # rest)))"
          using segments_dropWhile_tl [of rest] set_tl_segments [of "c # rest"] nsep
          by auto
        have "take dotdot out' = take dotdot out"
          using len by (simp add: out'_def)
        moreover have "rooted \<Longrightarrow> out' \<noteq> [] \<and> hd out' = CHR ''/''"
          using root by (cases out) (auto simp: out'_def el_def)
        moreover have "dotdot \<le> length out'"
          using len by (simp add: out'_def)
        ultimately have "clean_inv rooted out' dotdot"
          using low root by (simp add: clean_inv_def)
        from "2.IH"(6) [OF nsep ndot real, folded el_def, folded out'_def, OF this]
          seg sub el_in
        show ?thesis
          unfolding eq by blast
      qed
    qed
  qed
qed


lemma Clean_segments:
  "set (segments (filepath_Clean path)) \<subseteq> set (segments path) \<union> {''..'', ''.'', []}"
proof (cases "path = []")
  case True
  then show ?thesis by (simp add: filepath_Clean_def IsPathSeparator_def)
next
  case ne: False
  then obtain c rest where path: "path = c # rest" by (cases path) auto
  show ?thesis
  proof (cases "IsPathSeparator c")
    case True
    have "clean_inv True ''/'' 1"
      by (simp add: clean_inv_def IsPathSeparator_def)
    from clean_loop_segments [OF this, of rest]
    have "set (segments (clean_loop True rest ''/'' 1))
        \<subseteq> set (segments rest) \<union> {''..'', []}"
      by (auto simp: IsPathSeparator_def)
    moreover have "segments path = [] # segments rest"
      using True by (simp add: path)
    ultimately show ?thesis
      using True by (auto simp: filepath_Clean_def path Let_def IsPathSeparator_def)
  next
    case False
    have "clean_inv False [] 0"
      by (simp add: clean_inv_def)
    from clean_loop_segments [OF this, of path]
    have "set (segments (clean_loop False path [] 0)) \<subseteq> set (segments path) \<union> {''..'', []}"
      by auto
    then show ?thesis
      using False by (auto simp: filepath_Clean_def path Let_def IsPathSeparator_def)
  qed
qed

lemma Join2_segments:
  "set (segments (filepath_Join [a, b]))
     \<subseteq> set (segments a) \<union> set (segments b) \<union> {''..'', ''.'', []}"
proof (cases "a = []")
  case True
  then show ?thesis using Clean_segments [of b] by auto
next
  case False
  have "segments (a @ ''/'' @ b) = segments a @ segments b"
    by (simp add: segments_sep_append)
  then show ?thesis using False Clean_segments [of "a @ ''/'' @ b"] by auto
qed

lemma segments_hyphen:
  "x \<in> set (segments (p @ ''-'' @ s)) \<Longrightarrow>
   x \<in> set (segments p) \<or> x \<in> set (tl (segments s)) \<or> CHR ''-'' \<in> set x"
proof -
  assume x: "x \<in> set (segments (p @ ''-'' @ s))"
  have "hd (segments (''-'' @ s)) = CHR ''-'' # hd (segments s)"
    and "tl (segments (''-'' @ s)) = tl (segments s)"
    by (simp_all add: IsPathSeparator_def)
  then have "segments (p @ ''-'' @ s) =
      butlast (segments p) @ (last (segments p) @ CHR ''-'' # hd (segments s)) # tl (segments s)"
    using segments_append [of p "''-'' @ s"] by simp
  with x have "x \<in> set (butlast (segments p)) \<or> x = last (segments p) @ CHR ''-'' # hd (segments s)
      \<or> x \<in> set (tl (segments s))"
    by auto
  then show ?thesis
    by (auto dest: in_set_butlastD)
qed

lemma segments_hyphen_glued:
  "x \<in> set (segments (p @ ''-'' @ s)) \<Longrightarrow>
   x \<in> set (segments p) \<or> x \<in> set (tl (segments s)) \<or>
   x = last (segments p) @ ''-'' @ hd (segments s)"
proof -
  assume x: "x \<in> set (segments (p @ ''-'' @ s))"
  have "hd (segments (''-'' @ s)) = CHR ''-'' # hd (segments s)"
    and "tl (segments (''-'' @ s)) = tl (segments s)"
    by (simp_all add: IsPathSeparator_def)
  then have "segments (p @ ''-'' @ s) =
      butlast (segments p) @ (last (segments p) @ CHR ''-'' # hd (segments s)) # tl (segments s)"
    using segments_append [of p "''-'' @ s"] by simp
  with x have "x \<in> set (butlast (segments p)) \<or> x = last (segments p) @ CHR ''-'' # hd (segments s)
      \<or> x \<in> set (tl (segments s))"
    by auto
  then show ?thesis
    by (auto dest: in_set_butlastD)
qed

subsection \<open>Path construction\<close>

text \<open>
  C1. The release path of bucket \<open>gs://bucket\<close> and build type \<open>ci\<close> should be
  \<open>gs://bucket/ci\<close>, and with suffix \<open>fast-build\<close>, version \<open>v1.2.3\<close> and the fast flag
  \<open>gs://bucket/ci-fast-build/fast/v1.2.3\<close>. The code joins the segments with
  \<^verbatim>\<open>filepath.Join\<close>, which cleans the joined path and so collapses the double slash of the
  scheme: both results start with \<open>gs:/\<close>. The segments themselves come out in the order
  bucket, build type with hyphenated suffix, \<open>fast\<close>, version.
\<close>

theorem GetReleasePath_collapses_scheme:
  "GetReleasePath ''gs://bucket'' ''ci'' [] [] False = ''gs:/bucket/ci'' \<and>
   GetReleasePath ''gs://bucket'' ''ci'' ''fast-build'' ''v1.2.3'' True =
     ''gs:/bucket/ci-fast-build/fast/v1.2.3''"
  by code_simp

text \<open>
  Without the scheme in the bucket, the same calls give the segments in the same order
  and nothing is lost.
\<close>

lemma GetReleasePath_without_scheme:
  "GetReleasePath ''bucket'' ''ci'' [] [] False = ''bucket/ci'' \<and>
   GetReleasePath ''bucket'' ''ci'' ''fast-build'' ''v1.2.3'' True =
     ''bucket/ci-fast-build/fast/v1.2.3''"
  by code_simp

text \<open>
  C7, as the code has it. The marker builder appends no \<open>fast\<close> segment and no version
  segment: in marker mode the shared builder \<open>getPath\<close> ignores both the version and the
  fast flag that it is given, and the marker path is the join of bucket and build type
  followed by the hyphenated suffix, nothing else. The suffix is appended as it is, so
  the path may still contain such segments when the caller's own strings carry them:
  every segment of the marker path is a segment of the bucket or of the build type (or
  \<open>..\<close>, \<open>.\<close> or empty), or a segment of the suffix after its first, or the last
  segment of the join glued by the hyphen to the first segment of the suffix. In
  particular the path has a segment \<open>fast\<close> only if the bucket, the build type or the
  suffix after its first separator has one.
\<close>

theorem GetMarkerPath_no_fast_no_version:
  "getPath bucket buildType gcsSuffix version ''marker'' fast =
     GetMarkerPath bucket buildType gcsSuffix \<and>
   GetMarkerPath bucket buildType gcsSuffix =
     filepath_Join [bucket, buildType] @ (if gcsSuffix = [] then [] else ''-'' @ gcsSuffix) \<and>
   (\<forall>x. x \<in> set (segments (GetMarkerPath bucket buildType gcsSuffix)) \<longrightarrow>
      x \<in> set (segments bucket) \<union> set (segments buildType) \<union> {''..'', ''.'', []}
            \<union> set (tl (segments gcsSuffix)) \<or>
      gcsSuffix \<noteq> [] \<and>
      x = last (segments (filepath_Join [bucket, buildType])) @ ''-'' @ hd (segments gcsSuffix)) \<and>
   (''fast'' \<notin> set (segments bucket) \<union> set (segments buildType)
               \<union> set (tl (segments gcsSuffix)) \<longrightarrow>
    ''fast'' \<notin> set (segments (GetMarkerPath bucket buildType gcsSuffix)))"
proof -
  let ?j = "filepath_Join [bucket, buildType]"
  have form: "GetMarkerPath bucket buildType gcsSuffix =
      ?j @ (if gcsSuffix = [] then [] else ''-'' @ gcsSuffix)"
    by (simp add: GetMarkerPath_def getPath_def)
  have same: "getPath bucket buildType gcsSuffix version ''marker'' fast =
      GetMarkerPath bucket buildType gcsSuffix"
    by (simp add: GetMarkerPath_def getPath_def)
  have j: "x \<in> set (segments bucket) \<union> set (segments buildType) \<union> {''..'', ''.'', []}"
    if "x \<in> set (segments ?j)" for x
    using that Join2_segments [of bucket buildType] by blast
  have origin: "x \<in> set (segments bucket) \<union> set (segments buildType) \<union> {''..'', ''.'', []}
            \<union> set (tl (segments gcsSuffix)) \<or>
      gcsSuffix \<noteq> [] \<and> x = last (segments ?j) @ ''-'' @ hd (segments gcsSuffix)"
    if x: "x \<in> set (segments (GetMarkerPath bucket buildType gcsSuffix))" for x
  proof (cases "gcsSuffix = []")
    case True
    with x form have "x \<in> set (segments ?j)"
      by simp
    from j [OF this] show ?thesis by blast
  next
    case False
    with x form have "x \<in> set (segments (?j @ ''-'' @ gcsSuffix))"
      by simp
    from segments_hyphen_glued [OF this] j False show ?thesis by blast
  qed
  have seg: "''fast'' \<in> set (segments bucket) \<union> set (segments buildType)
               \<union> set (tl (segments gcsSuffix))"
    if f: "''fast'' \<in> set (segments (GetMarkerPath bucket buildType gcsSuffix))"
  proof -
    have jf: "''fast'' \<in> set (segments ?j) \<Longrightarrow>
        ''fast'' \<in> set (segments bucket) \<union> set (segments buildType)"
      using Join2_segments [of bucket buildType] by auto
    show ?thesis
    proof (cases "gcsSuffix = []")
      case True
      with f form have "''fast'' \<in> set (segments ?j)"
        by simp
      with jf show ?thesis by blast
    next
      case False
      with f form have "''fast'' \<in> set (segments (?j @ ''-'' @ gcsSuffix))"
        by simp
      from segments_hyphen [OF this] jf show ?thesis by auto
    qed
  qed
  from form same origin seg show ?thesis
    by blast
qed

text \<open>
  A suffix that holds separators brings its own segments: this marker path has the
  segments \<open>fast\<close> and \<open>v1.2.3\<close>, and is letter for letter the release path of suffix
  \<open>x\<close>, version \<open>v1.2.3\<close> and the fast flag.
\<close>

theorem GetMarkerPath_suffix_carries_fast:
  "GetMarkerPath ''b'' ''ci'' ''x/fast/v1.2.3'' = ''b/ci-x/fast/v1.2.3'' \<and>
   ''fast'' \<in> set (segments (GetMarkerPath ''b'' ''ci'' ''x/fast/v1.2.3'')) \<and>
   ''v1.2.3'' \<in> set (segments (GetMarkerPath ''b'' ''ci'' ''x/fast/v1.2.3'')) \<and>
   GetMarkerPath ''b'' ''ci'' ''x/fast/v1.2.3'' = GetReleasePath ''b'' ''ci'' ''x'' ''v1.2.3'' True"
  by code_simp

theorem GetMarkerPath_no_fast_no_version_witness:
  "getPath ''k8s-release-dev'' ''ci'' ''fast-build'' ''v1.2.3'' ''marker'' True =
     ''k8s-release-dev/ci-fast-build'' \<and>
   segments (GetMarkerPath ''k8s-release-dev'' ''ci'' ''fast-build'') =
     [''k8s-release-dev'', ''ci-fast-build''] \<and>
   ''fast'' \<notin> set (segments (GetMarkerPath ''k8s-release-dev'' ''ci'' ''fast-build''))"
proof -
  have h: "''fast'' \<notin> set (segments ''k8s-release-dev'') \<union> set (segments ''ci'')
             \<union> set (tl (segments ''fast-build''))"
    by code_simp
  have v: "GetMarkerPath ''k8s-release-dev'' ''ci'' ''fast-build'' =
      ''k8s-release-dev/ci-fast-build''"
    by code_simp
  have s: "segments ''k8s-release-dev/ci-fast-build'' = [''k8s-release-dev'', ''ci-fast-build'']"
    by code_simp
  note t = GetMarkerPath_no_fast_no_version [of "''k8s-release-dev''" "''ci''" "''fast-build''"
      "''v1.2.3''" True]
  have m: "getPath ''k8s-release-dev'' ''ci'' ''fast-build'' ''v1.2.3'' ''marker'' True =
      GetMarkerPath ''k8s-release-dev'' ''ci'' ''fast-build''"
    by (rule t [THEN conjunct1])
  have f: "''fast'' \<notin> set (segments (GetMarkerPath ''k8s-release-dev'' ''ci'' ''fast-build''))"
    by (rule t [THEN conjunct2, THEN conjunct2, THEN conjunct2, THEN mp, OF h])
  have g: "segments (GetMarkerPath ''k8s-release-dev'' ''ci'' ''fast-build'') =
      [''k8s-release-dev'', ''ci-fast-build'']"
    unfolding v by (rule s)
  show ?thesis
    by (intro conjI trans [OF m v] g f)
qed

text \<open>
  C10. The marker path is the release path for an empty version with the fast flag off.
\<close>

theorem GetMarkerPath_eq_GetReleasePath:
  "GetMarkerPath bucket buildType gcsSuffix =
     GetReleasePath bucket buildType gcsSuffix [] False"
  by (simp add: GetMarkerPath_def GetReleasePath_def getPath_def)

subsection \<open>Normalization\<close>

text \<open>
  C8. Normalization is idempotent: normalizing a normalized path changes nothing.
\<close>

theorem NormalizeGCSPath_idempotent:
  "NormalizeGCSPath (NormalizeGCSPath p) = NormalizeGCSPath p"
  by (simp add: NormalizeGCSPath_def TrimPrefix_append)

text \<open>
  C2, as the code has it. The normalized path always starts with \<open>gs://\<close>. Only one
  leading occurrence is removed before the prefix is put back, so the number of leading
  copies of the prefix in the result is that of the input, and one when the input has
  none: the result starts with the prefix exactly once when the input starts with it at
  most once.
\<close>

theorem NormalizeGCSPath_leading_prefix:
  "strings_HasPrefix (NormalizeGCSPath p) GcsPrefix \<and>
   leading_count GcsPrefix (NormalizeGCSPath p) = max 1 (leading_count GcsPrefix p)"
proof (cases "strings_HasPrefix p GcsPrefix")
  case True
  then obtain r where r: "p = GcsPrefix @ r"
    by (auto simp: HasPrefix_iff)
  show ?thesis
    by (simp add: r NormalizeGCSPath_def TrimPrefix_append HasPrefix_append
        leading_count_append GcsPrefix_nonempty)
next
  case False
  then show ?thesis
    by (simp add: NormalizeGCSPath_def strings_TrimPrefix_def HasPrefix_append
        leading_count_append GcsPrefix_nonempty leading_count_0)
qed

text \<open>
  A path that starts with the prefix twice is returned as it is, with both copies.
\<close>

theorem NormalizeGCSPath_double_prefix:
  "NormalizeGCSPath ''gs://gs://bucket'' = ''gs://gs://bucket'' \<and>
   leading_count GcsPrefix (NormalizeGCSPath ''gs://gs://bucket'') \<noteq> 1"
  by code_simp

theorem NormalizeGCSPath_leading_prefix_witness:
  "leading_count GcsPrefix (NormalizeGCSPath ''gs://bucket/ci'') = 1 \<and>
   leading_count GcsPrefix (NormalizeGCSPath ''bucket/ci'') = 1 \<and>
   leading_count GcsPrefix (NormalizeGCSPath ''gs://gs://bucket'') = 2"
proof -
  have "leading_count GcsPrefix ''gs://bucket/ci'' = 1"
    and "leading_count GcsPrefix ''bucket/ci'' = 0"
    and "leading_count GcsPrefix ''gs://gs://bucket'' = 2"
    by code_simp+
  then show ?thesis
    using NormalizeGCSPath_leading_prefix [of "''gs://bucket/ci''"]
      NormalizeGCSPath_leading_prefix [of "''bucket/ci''"]
      NormalizeGCSPath_leading_prefix [of "''gs://gs://bucket''"]
    by simp
qed

subsection \<open>Copy operations\<close>

text \<open>
  C6. With its three toggles set, \<open>bucketCopy\<close> calls gsutil once, with the arguments
  \<open>-m\<close> (if concurrent), \<open>cp\<close>, \<open>-r\<close> (if recursive), \<open>-n\<close> (if no-clobber), source,
  destination, in this order; the flag of a disabled toggle is left out. It returns nil
  when gsutil does and the failure wrapped with \<open>gcs copy\<close> otherwise.
\<close>

theorem bucketCopy_argument_order:
  "bucketCopy e src dst
     (Some \<lparr>Concurrent = Some concurrent, Recursive = Some recursive,
            NoClobber = Some noClobber, AllowMissing = allowMissing\<rparr>) =
   (let args = (if concurrent then [''-m''] else []) @ [''cp'']
               @ (if recursive then [''-r''] else [])
               @ (if noClobber then [''-n''] else []) @ [src, dst]
    in (Return (errors_Wrap (gcp_GSUtil e args) ''gcs copy''), [args]))"
  by (simp add: bucketCopy_def Let_def errors_Wrap_def concurrentFlag_def recursiveFlag_def
      noClobberFlag_def split: option.splits)

theorem bucketCopy_argument_order_witness:
  "bucketCopy example_env ''_output/release-tars'' ''gs://k8s-release-dev/ci''
     DefaultGCSCopyOptions =
     (Return None,
      [[''-m'', ''cp'', ''-r'', ''-n'', ''_output/release-tars'', ''gs://k8s-release-dev/ci'']]) \<and>
   bucketCopy example_env ''_output/release-tars'' ''gs://k8s-release-dev/ci''
     strict_Options =
     (Return None, [[''cp'', ''_output/release-tars'', ''gs://k8s-release-dev/ci'']])"
  using bucketCopy_argument_order [of example_env "''_output/release-tars''"
      "''gs://k8s-release-dev/ci''" True True True "Some True"]
    bucketCopy_argument_order [of example_env "''_output/release-tars''"
      "''gs://k8s-release-dev/ci''" False False False "Some False"]
  by (simp add: DefaultGCSCopyOptions_def strict_Options_def example_env_def errors_Wrap_def)

text \<open>
  C4. When \<^verbatim>\<open>os.Stat\<close> fails on the local source and \<open>AllowMissing\<close> is true,
  \<open>CopyToGCS\<close> returns nil and gsutil is not called.
\<close>

theorem CopyToGCS_missing_source_skipped:
  "os_Stat e src = Some err \<Longrightarrow> opts = Some opt \<Longrightarrow> AllowMissing opt = Some True \<Longrightarrow>
   CopyToGCS e src gcsPath opts = (Return None, [])"
  by (simp add: CopyToGCS_def)

theorem CopyToGCS_missing_source_skipped_witness:
  "os_Stat example_env ''_output/nothing'' \<noteq> None \<and>
   CopyToGCS example_env ''_output/nothing'' ''k8s-release-dev/ci'' DefaultGCSCopyOptions =
     (Return None, [])"
proof -
  have s: "os_Stat example_env ''_output/nothing'' = Some (New ''no such file or directory'')"
    by (simp add: example_env_def)
  have a: "AllowMissing \<lparr>Concurrent = Some True, Recursive = Some True, NoClobber = Some True,
             AllowMissing = Some True\<rparr> = Some True"
    by simp
  show ?thesis
    using CopyToGCS_missing_source_skipped [OF s DefaultGCSCopyOptions_def a] s by simp
qed

text \<open>
  C5. When \<^verbatim>\<open>os.Stat\<close> fails on the local source and \<open>AllowMissing\<close> is false,
  \<open>CopyToGCS\<close> returns the error \<open>source directory does not exist\<close> and gsutil is not
  called.
\<close>

theorem CopyToGCS_missing_source_error:
  "os_Stat e src = Some err \<Longrightarrow> opts = Some opt \<Longrightarrow> AllowMissing opt = Some False \<Longrightarrow>
   CopyToGCS e src gcsPath opts =
     (Return (Some (New ''source directory does not exist'')), [])"
  by (simp add: CopyToGCS_def)

theorem CopyToGCS_missing_source_error_witness:
  "os_Stat example_env ''_output/nothing'' \<noteq> None \<and>
   CopyToGCS example_env ''_output/nothing'' ''k8s-release-dev/ci'' strict_Options =
     (Return (Some (New ''source directory does not exist'')), [])"
proof -
  have s: "os_Stat example_env ''_output/nothing'' = Some (New ''no such file or directory'')"
    by (simp add: example_env_def)
  have a: "AllowMissing \<lparr>Concurrent = Some False, Recursive = Some False,
             NoClobber = Some False, AllowMissing = Some False\<rparr> = Some False"
    by simp
  show ?thesis
    using CopyToGCS_missing_source_error [OF s strict_Options_def a] s by simp
qed

text \<open>
  C9. \<open>PathExists\<close> runs \<open>gsutil ls\<close> on the path, once. It returns true with a nil error
  exactly when gsutil returns nil, and false with gsutil's own error when gsutil fails.
\<close>

theorem PathExists_result:
  "(fst (PathExists e gcsPath) = Return (True, None)) = (gcp_GSUtil e [''ls'', gcsPath] = None) \<and>
   (\<forall>err. gcp_GSUtil e [''ls'', gcsPath] = Some err \<longrightarrow>
      fst (PathExists e gcsPath) = Return (False, Some err)) \<and>
   snd (PathExists e gcsPath) = [[''ls'', gcsPath]]"
  by (simp add: PathExists_def split: option.splits)

theorem PathExists_result_witness:
  "PathExists example_env ''gs://k8s-release-dev/ci/latest.txt'' =
     (Return (False, Some (New ''exit status 1'')),
      [[''ls'', ''gs://k8s-release-dev/ci/latest.txt'']]) \<and>
   PathExists example_env ''gs://k8s-release-dev/ci'' =
     (Return (True, None), [[''ls'', ''gs://k8s-release-dev/ci'']])"
proof -
  have f: "gcp_GSUtil example_env [''ls'', ''gs://k8s-release-dev/ci/latest.txt''] =
      Some (New ''exit status 1'')"
    by (simp add: example_env_def)
  have t: "gcp_GSUtil example_env [''ls'', ''gs://k8s-release-dev/ci''] = None"
    by (simp add: example_env_def)
  show ?thesis
    using PathExists_result [of example_env "''gs://k8s-release-dev/ci/latest.txt''"]
      PathExists_result [of example_env "''gs://k8s-release-dev/ci''"] f t
    by (simp add: prod_eq_iff)
qed

subsection \<open>Panics\<close>

text \<open>
  C3, as the code has it. The copy operations dereference the \<open>Options\<close> pointer and
  its fields without a nil check. \<open>CopyToLocal\<close> and \<open>CopyBucketToBucket\<close> return
  (nil or an error) exactly when \<open>opts\<close>, \<open>Concurrent\<close>, \<open>Recursive\<close> and \<open>NoClobber\<close>
  are not nil; \<open>CopyToGCS\<close> needs the same when the source exists, and \<open>opts\<close> and
  \<open>AllowMissing\<close> not nil when it does not. \<open>RsyncRecursive\<close> and \<open>PathExists\<close> take no
  options and always return.
\<close>

theorem facade_returns_iff_options_set:
  "returns (CopyToLocal e gcsPath dst opts) = flags_set opts \<and>
   returns (CopyBucketToBucket e src dst opts) = flags_set opts \<and>
   returns (CopyToGCS e src gcsPath opts) =
     (if os_Stat e src = None then flags_set opts else allow_set opts) \<and>
   returns (RsyncRecursive e src dst) \<and>
   returns (PathExists e gcsPath)"
proof -
  have 1: "returns (CopyToLocal e gcsPath dst opts) = flags_set opts"
    by (simp add: CopyToLocal_def returns_bucketCopy)
  have 2: "returns (CopyBucketToBucket e src dst opts) = flags_set opts"
    by (simp add: CopyBucketToBucket_def returns_bucketCopy)
  have 3: "returns (CopyToGCS e src gcsPath opts) =
      (if os_Stat e src = None then flags_set opts else allow_set opts)"
  proof (cases "os_Stat e src")
    case None
    then show ?thesis
      by (simp add: CopyToGCS_def returns_bucketCopy)
  next
    case (Some err)
    then show ?thesis
      by (auto simp: CopyToGCS_def returns_def allow_set_def split: option.splits)
  qed
  have 4: "returns (RsyncRecursive e src dst)"
    by (simp add: RsyncRecursive_def returns_def)
  have 5: "returns (PathExists e gcsPath)"
    by (simp add: PathExists_def returns_def split: option.splits)
  from 1 2 3 4 5 show ?thesis
    by blast
qed

text \<open>With the default options, where every toggle is set, no operation panics.\<close>

theorem facade_returns_default_options:
  "returns (CopyToLocal example_env ''k8s-release-dev/ci'' ''/tmp/ci'' DefaultGCSCopyOptions) \<and>
   returns (CopyBucketToBucket example_env ''a'' ''b'' DefaultGCSCopyOptions) \<and>
   returns (CopyToGCS example_env ''_output/release-tars'' ''k8s-release-dev/ci''
              DefaultGCSCopyOptions) \<and>
   returns (CopyToGCS example_env ''_output/nothing'' ''k8s-release-dev/ci''
              DefaultGCSCopyOptions) \<and>
   returns (RsyncRecursive example_env ''gs://a'' ''gs://b'') \<and>
   returns (PathExists example_env ''gs://a'')"
  using facade_returns_iff_options_set [where e = example_env
      and gcsPath = "''k8s-release-dev/ci''" and dst = "''/tmp/ci''"
      and opts = DefaultGCSCopyOptions and src = "''_output/release-tars''"]
    facade_returns_iff_options_set [where e = example_env
      and gcsPath = "''k8s-release-dev/ci''" and dst = "''b''"
      and opts = DefaultGCSCopyOptions and src = "''_output/nothing''"]
    facade_returns_iff_options_set [where e = example_env
      and gcsPath = "''gs://a''" and dst = "''b''"
      and opts = DefaultGCSCopyOptions and src = "''a''"]
    facade_returns_iff_options_set [where e = example_env
      and gcsPath = "''gs://a''" and dst = "''gs://b''"
      and opts = DefaultGCSCopyOptions and src = "''gs://a''"]
  by (simp add: flags_set_def allow_set_def DefaultGCSCopyOptions_def example_env_def)

text \<open>
  With \<^verbatim>\<open>&Options{}\<close>, whose fields are all nil, \<open>CopyToLocal\<close> panics at the first
  dereference, before gsutil is called.
\<close>

theorem CopyToLocal_nil_flag_panics:
  "CopyToLocal example_env ''gs://k8s-release-dev/ci'' ''/tmp/ci'' empty_Options = (Panic, []) \<and>
   \<not> returns (CopyToLocal example_env ''gs://k8s-release-dev/ci'' ''/tmp/ci'' empty_Options)"
  by (simp add: returns_def CopyToLocal_def bucketCopy_def empty_Options_def)

end
